theory Spec2Isabelle
  imports Complex_Main "HOL-Library.Word" "HOL-Library.Log_Nat"
begin

unbundle bit_operations_syntax

section \<open>JavaScript values, arrays and the store\<close>

text \<open>
  The generator of \<^verbatim>\<open>rng.js\<close> keeps its state in a JavaScript array of Numbers.
  A state word, a pointer or an argument that is a Number with an integer value is an
  \<open>int\<close>; where the code does arithmetic on such Numbers, the model does it in binary64
  (section Numbers). A missing array element (a hole, or an index beyond the length) reads
  as \<open>undefined\<close>. The bitwise operators first convert their operands
  with ToInt32, which maps \<open>undefined\<close> to 0 and an integer to its residue modulo
  \<open>2^32\<close>, read in two's complement; their result is an int32, here a \<open>32 word\<close>
  read with \<open>sint\<close>.
\<close>

datatype jsval = Undefined | Num int

fun ToInt32 :: "jsval \<Rightarrow> 32 word" where
  "ToInt32 Undefined = 0"
| "ToInt32 (Num i) = word_of_int i"

definition int32 :: "32 word \<Rightarrow> jsval" where
  "int32 w = Num (sint w)"

text \<open>ToNumber: \<open>undefined\<close> becomes NaN, written \<open>None\<close>.\<close>

fun ToNumber :: "jsval \<Rightarrow> int option" where
  "ToNumber Undefined = None"
| "ToNumber (Num i) = Some i"

text \<open>
  The shift operators \<^verbatim>\<open><<\<close> and \<^verbatim>\<open>>>\<close> use the low five bits of the shift
  count; \<^verbatim>\<open>>>\<close> replicates the sign bit.
\<close>

definition shl :: "32 word \<Rightarrow> int \<Rightarrow> 32 word" where
  "shl w k = push_bit (nat (k mod 32)) w"

definition sar :: "32 word \<Rightarrow> int \<Rightarrow> 32 word" where
  "sar w k = signed_drop_bit (nat (k mod 32)) w"

text \<open>\<^verbatim>\<open>x & 31\<close> for a Number \<open>x\<close>, as a Number.\<close>

definition and31 :: "int \<Rightarrow> int" where
  "and31 x = sint ((word_of_int x :: 32 word) AND 31)"

text \<open>
  Array reads and writes. A read outside \<open>0 .. length - 1\<close> gives \<open>undefined\<close>. A write
  at an index at or beyond the length extends the array (the slots in between are holes).
  The array indices are the integers from 0 to \<open>2^32 - 2\<close>: a write at a negative key or
  at a key from \<open>2^32 - 1\<close> on creates a named property, which is no element of the
  array: it does not change the length, \<^verbatim>\<open>slice\<close> does not copy it, and the generator
  never reads such a key, so the elements are left as they are.
\<close>

type_synonym jsarray = "jsval list"

definition js_get :: "jsarray \<Rightarrow> int \<Rightarrow> jsval" where
  "js_get xs i = (if 0 \<le> i \<and> i < int (length xs) then xs ! nat i else Undefined)"

definition js_set :: "jsarray \<Rightarrow> int \<Rightarrow> jsval \<Rightarrow> jsarray" where
  "js_set xs i v =
     (if i < 0 \<or> 2 ^ 32 - 1 \<le> i then xs
      else if i < int (length xs) then xs[nat i := v]
      else xs @ replicate (nat i - length xs) Undefined @ [v])"

text \<open>
  Arrays are objects, shared by reference between the generator and its caller. The store
  is the list of all arrays allocated so far, an array's address its position there;
  allocation appends. \<^verbatim>\<open>xs.slice(0)\<close> allocates a copy of the elements of \<open>xs\<close>.
\<close>

type_synonym addr = nat
type_synonym heap = "jsarray list"

definition slice0 :: "addr \<Rightarrow> heap \<Rightarrow> addr \<times> heap" where
  "slice0 a h = (length h, h @ [h ! a])"

section \<open>Numbers\<close>

text \<open>
  JavaScript computes \<^verbatim>\<open>+\<close>, \<^verbatim>\<open>-\<close>, \<^verbatim>\<open>*\<close> and \<^verbatim>\<open>%\<close> in IEEE-754 binary64.
  A Number is NaN, an infinity or a finite double, and a finite double is a rational; the
  two zeros are one (no operation of the generator tells them apart). The result of an
  operation is the exact result rounded to the nearest double, ties to the even
  significand. \<open>double_round\<close> is this rounding with 53 significant bits and an exponent
  without bounds: with \<open>a\<close> the magnitude and \<open>2^e \<le> a < 2^(e+1)\<close>, the doubles around
  \<open>a\<close> are the multiples of \<open>2^(e-52)\<close>. \<open>fl\<close> adds the overflow to an infinity. Below
  the normal range a double has fewer bits; \<open>double_round\<close> is used there only for sums and
  differences of doubles, which are doubles themselves and so stay as they are, and the
  product in \<^verbatim>\<open>random\<close> is 0 or of magnitude between \<open>2^-32\<close> and 2.
\<close>

datatype jsnum = NaN | PosInf | NegInf | Fin rat

definition double_round :: "rat \<Rightarrow> rat" where
  "double_round x = (if x = 0 then 0 else
     let a = \<bar>x\<bar>;
         e0 = bitlen (fst (quotient_of a)) - bitlen (snd (quotient_of a));
         e = (if a < 2 powi e0 then e0 - 1 else e0);
         ulp = 2 powi (e - 52);
         m = a / ulp;
         f = \<lfloor>m\<rfloor>;
         d = m - of_int f;
         k = (if d < 1 / 2 then f else if 1 / 2 < d then f + 1 else if even f then f else f + 1)
     in sgn x * of_int k * ulp)"

definition fl :: "rat \<Rightarrow> jsnum" where
  "fl x = (let y = double_round x
           in if 2 ^ 1024 \<le> y then PosInf else if y \<le> - (2 ^ 1024) then NegInf else Fin y)"

fun js_add :: "jsnum \<Rightarrow> jsnum \<Rightarrow> jsnum" where
  "js_add (Fin x) (Fin y) = fl (x + y)"
| "js_add NaN y = NaN"
| "js_add x NaN = NaN"
| "js_add PosInf NegInf = NaN"
| "js_add NegInf PosInf = NaN"
| "js_add PosInf y = PosInf"
| "js_add x PosInf = PosInf"
| "js_add NegInf y = NegInf"
| "js_add x NegInf = NegInf"

fun js_neg :: "jsnum \<Rightarrow> jsnum" where
  "js_neg (Fin x) = Fin (- x)"
| "js_neg PosInf = NegInf"
| "js_neg NegInf = PosInf"
| "js_neg NaN = NaN"

definition js_sub :: "jsnum \<Rightarrow> jsnum \<Rightarrow> jsnum" where
  "js_sub x y = js_add x (js_neg y)"

text \<open>
  The remainder operator \<^verbatim>\<open>%\<close> truncates: the result has the sign of the dividend and
  is exact. It is NaN for a NaN operand, an infinite dividend and the divisor 0, and the
  dividend itself for an infinite divisor.
\<close>

fun js_rem :: "jsnum \<Rightarrow> jsnum \<Rightarrow> jsnum" where
  "js_rem (Fin x) (Fin y) =
     (if y = 0 then NaN else Fin (sgn x * (\<bar>x\<bar> - \<bar>y\<bar> * of_int \<lfloor>\<bar>x\<bar> / \<bar>y\<bar>\<rfloor>)))"
| "js_rem (Fin x) PosInf = Fin x"
| "js_rem (Fin x) NegInf = Fin x"
| "js_rem x y = NaN"

text \<open>A value as a Number: \<open>undefined\<close> becomes NaN.\<close>

fun Number_of :: "jsval \<Rightarrow> jsnum" where
  "Number_of Undefined = NaN"
| "Number_of (Num i) = Fin (of_int i)"

text \<open>
  ToInt32 of a Number truncates towards zero before it reduces modulo \<open>2^32\<close>; NaN and
  the infinities become 0. \<open>idx n k\<close> is \<^verbatim>\<open>(n + k) & 31\<close> for Numbers \<open>n\<close> and \<open>k\<close>
  with integer values.
\<close>

fun trunc_int :: "jsnum \<Rightarrow> int" where
  "trunc_int (Fin q) = (if 0 \<le> q then \<lfloor>q\<rfloor> else \<lceil>q\<rceil>)"
| "trunc_int x = 0"

definition idx :: "int \<Rightarrow> int \<Rightarrow> int" where
  "idx n k = and31 (trunc_int (js_add (Fin (of_int n)) (Fin (of_int k))))"

text \<open>\<^verbatim>\<open>WELL.prototype.scale = 1 / (Math.pow(2, 31)-1)\<close>\<close>

definition scale :: rat where
  "scale = double_round (1 / (2 ^ 31 - 1))"

section \<open>The generator\<close>

text \<open>
  The fields of a \<^verbatim>\<open>WELL\<close> object: \<open>p_state\<close> is \<^verbatim>\<open>this._state\<close> (a reference to
  the state vector), \<open>p_n\<close> is \<^verbatim>\<open>this._n\<close> (the state pointer), \<open>next_bit\<close> and
  \<open>bit_state\<close> are the bit cache of \<^verbatim>\<open>randBits\<close>. \<open>bit_state\<close> is not assigned
  before the first refill and is \<open>undefined\<close> until then.
\<close>

record WELL =
  p_state :: addr
  p_n :: int
  next_bit :: int
  bit_state :: jsval

datatype error = TypeError

definition positive_mask :: int where
  "positive_mask = 2 ^ 31 - 1"

text \<open>
  \<^verbatim>\<open>get_state\<close>: a copy of the state vector. Returns the address of the copy and the
  store after the allocation.
\<close>

definition get_state :: "heap \<times> WELL \<Rightarrow> addr \<times> heap" where
  "get_state hg = (case hg of (h, g) \<Rightarrow> slice0 (p_state g) h)"

text \<open>
  \<^verbatim>\<open>set_state(state, sp)\<close>: \<open>state\<close> is the address of the caller's array, \<open>sp\<close> the
  optional pointer (\<open>None\<close> when it is omitted). \<^verbatim>\<open>sp || 0\<close> is \<open>sp\<close> itself for a
  nonzero integer and 0 for 0 and for \<open>undefined\<close>. The result is the exception thrown, if
  any, with the store and the object as the call leaves them.
\<close>

definition set_state :: "addr \<Rightarrow> int option \<Rightarrow> heap \<times> WELL \<Rightarrow> error option \<times> heap \<times> WELL" where
  "set_state state sp hg = (case hg of (h, g) \<Rightarrow>
     if int (length (h ! state)) \<noteq> 32 then (Some TypeError, h, g)
     else
       let g1 = g\<lparr>p_n := (case sp of None \<Rightarrow> 0 | Some p \<Rightarrow> if p = 0 then 0 else p)\<rparr>;
           (a, h1) = slice0 state h
       in (None, h1, g1\<lparr>p_state := a\<rparr>))"

text \<open>
  \<^verbatim>\<open>genstate\<close>: a fresh array of 32 entries \<^verbatim>\<open>0 | (Math.random() * 2^32)\<close>. The
  host's draws are a parameter: \<open>rnd i\<close> is the integer part of the \<open>i\<close>-th product.
\<close>

definition genstate :: "(nat \<Rightarrow> int) \<Rightarrow> heap \<Rightarrow> addr \<times> heap" where
  "genstate rnd h = (length h, h @ [map (\<lambda>i. int32 (word_of_int (rnd i))) [0..<32]])"

text \<open>
  The constructor \<^verbatim>\<open>new WELL(state)\<close>; \<open>state\<close> is \<open>None\<close> when no array is given
  (an array is always truthy). The new object has no field until \<^verbatim>\<open>set_state\<close> assigns
  \<open>_n\<close> and \<open>_state\<close> and the constructor assigns \<open>next_bit\<close>; \<open>blank\<close> stands for
  it, and its pointer, reference and offset are placeholders that are always overwritten.
  When \<^verbatim>\<open>set_state\<close> throws, no object is returned.
\<close>

definition blank :: WELL where
  "blank = \<lparr>p_state = 0, p_n = 0, next_bit = 0, bit_state = Undefined\<rparr>"

definition WELL_new :: "(nat \<Rightarrow> int) \<Rightarrow> addr option \<Rightarrow> heap \<Rightarrow> (error + WELL) \<times> heap" where
  "WELL_new rnd state h =
     (let (a, h1) = (case state of None \<Rightarrow> genstate rnd h | Some a \<Rightarrow> (a, h))
      in case set_state a (Some 0) (h1, blank) of
           (Some e, h2, g) \<Rightarrow> (Inl e, h2)
         | (None, h2, g) \<Rightarrow> (Inr (g\<lparr>next_bit := 32\<rparr>), h2))"

text \<open>
  \<^verbatim>\<open>rand(incNeg)\<close>: one step of the recurrence. \<^verbatim>\<open>_state\<close> is an alias of the
  generator's array, so both stores go to the array at \<open>p_state g\<close>.
\<close>

definition rand :: "bool \<Rightarrow> heap \<times> WELL \<Rightarrow> jsval \<times> heap \<times> WELL" where
  "rand incNeg hg = (case hg of (h, g) \<Rightarrow>
     let S = h ! p_state g;
         n0 = p_n g;
         z0 = js_get S (idx n0 31);
         v_m1 = js_get S (idx n0 3);
         v_m2 = js_get S (idx n0 24);
         v_m3 = js_get S (idx n0 10);
         z1 = ToInt32 z0 XOR (ToInt32 v_m1 XOR sar (ToInt32 v_m1) 8);
         z2 = ToInt32 v_m2 XOR shl (ToInt32 v_m2) 19 XOR ToInt32 v_m3 XOR shl (ToInt32 v_m3) 14;
         S1 = js_set S n0 (int32 (z1 XOR z2));
         n1 = idx n0 31;
         S2 = js_set S1 n1
                (int32 (ToInt32 z0 XOR shl (ToInt32 z0) 11 XOR z1 XOR shl z1 7 XOR z2 XOR shl z2 13));
         r = js_get S2 n1
     in (if incNeg then r else int32 (ToInt32 r AND ToInt32 (Num positive_mask)),
         h[p_state g := S2], g\<lparr>p_n := n1\<rparr>))"

section \<open>The derived draws\<close>

text \<open>\<^verbatim>\<open>random(incNeg)\<close>: \<^verbatim>\<open>rand(incNeg) * scale\<close>; \<open>None\<close> is NaN.\<close>

definition random :: "bool \<Rightarrow> heap \<times> WELL \<Rightarrow> rat option \<times> heap \<times> WELL" where
  "random incNeg hg = (case rand incNeg hg of (r, hg') \<Rightarrow>
     (map_option (\<lambda>i. double_round (of_int i * scale)) (ToNumber r), hg'))"

text \<open>
  \<^verbatim>\<open>randInt(a, b)\<close>; \<^verbatim>\<open>rand\<close> is called without argument, so \<open>incNeg\<close> is falsy.
  \<open>a\<close> and \<open>b\<close> are Numbers with integer values, so doubles;
  \<^verbatim>\<open>1 + b - a\<close> is \<^verbatim>\<open>(1 + b) - a\<close>, each operation rounded.
\<close>

definition randInt :: "int \<Rightarrow> int \<Rightarrow> heap \<times> WELL \<Rightarrow> jsnum \<times> heap \<times> WELL" where
  "randInt a b hg =
     (let dist = js_sub (js_add (Fin 1) (Fin (of_int b))) (Fin (of_int a))
      in case rand False hg of (r, hg') \<Rightarrow>
           (js_add (js_rem (Number_of r) dist) (Fin (of_int a)), hg'))"

text \<open>
  \<^verbatim>\<open>randBits(bits)\<close>. \<^verbatim>\<open>(1 << bits) - 1\<close> is a Number (for \<open>bits = 31\<close> it is
  \<open>-2^31 - 1\<close>), converted with ToInt32 by the final \<^verbatim>\<open>&\<close>.
\<close>

definition randBits :: "int \<Rightarrow> heap \<times> WELL \<Rightarrow> jsval \<times> heap \<times> WELL" where
  "randBits bits hg = (case hg of (h, g) \<Rightarrow>
     let mask = sint (shl 1 bits) - 1;
         (unshift, h1, g1) =
           (if bits + next_bit g \<le> 32 then (next_bit g, h, g\<lparr>next_bit := next_bit g + bits\<rparr>)
            else case rand True (h, g) of (r, h', g') \<Rightarrow>
                   (0, h', g'\<lparr>bit_state := r, next_bit := bits\<rparr>))
     in (int32 (sar (ToInt32 (bit_state g1)) unshift AND ToInt32 (Num mask)), h1, g1))"

section \<open>Sequences of calls\<close>

datatype call = Rand bool | Random bool | RandInt int int | RandBits int

datatype outv = OutVal jsval | OutFloat "rat option" | OutNum jsnum

fun step :: "call \<Rightarrow> heap \<times> WELL \<Rightarrow> outv \<times> heap \<times> WELL" where
  "step (Rand incNeg) hg = (case rand incNeg hg of (r, hg') \<Rightarrow> (OutVal r, hg'))"
| "step (Random incNeg) hg = (case random incNeg hg of (r, hg') \<Rightarrow> (OutFloat r, hg'))"
| "step (RandInt a b) hg = (case randInt a b hg of (r, hg') \<Rightarrow> (OutNum r, hg'))"
| "step (RandBits bits) hg = (case randBits bits hg of (r, hg') \<Rightarrow> (OutVal r, hg'))"

fun run :: "call list \<Rightarrow> heap \<times> WELL \<Rightarrow> outv list \<times> heap \<times> WELL" where
  "run [] hg = ([], hg)"
| "run (c # cs) hg =
     (case step c hg of (r, hg') \<Rightarrow> (case run cs hg' of (rs, hg'') \<Rightarrow> (r # rs, hg'')))"

section \<open>What a generator is made of\<close>

text \<open>
  The reference held by the generator is an address of the store. What the draws can see
  of the store and the object is the contents of the state vector, the pointer and the bit
  cache.
\<close>

definition valid :: "heap \<times> WELL \<Rightarrow> bool" where
  "valid hg = (case hg of (h, g) \<Rightarrow> p_state g < length h)"

definition view :: "heap \<times> WELL \<Rightarrow> jsarray \<times> int \<times> int \<times> jsval" where
  "view hg = (case hg of (h, g) \<Rightarrow> (h ! p_state g, p_n g, next_bit g, bit_state g))"

text \<open>The state vector has 32 entries and the pointer is one of its indices.\<close>

definition inv32 :: "heap \<times> WELL \<Rightarrow> bool" where
  "inv32 hg = (case hg of (h, g) \<Rightarrow>
     p_state g < length h \<and> length (h ! p_state g) = 32 \<and> 0 \<le> p_n g \<and> p_n g < 32)"

section \<open>Seeds used below\<close>

definition zeros :: jsarray where
  "zeros = replicate 32 (Num 0)"

definition seed3 :: jsarray where
  "seed3 = (replicate 32 (Num 0))[3 := Num 1]"

definition seed24 :: jsarray where
  "seed24 = (replicate 32 (Num 0))[24 := Num (- 2080890881)]"

text \<open>
  \<open>gen1\<close> is the object that \<^verbatim>\<open>new WELL(seed)\<close> returns when the store holds
  two arrays and \<open>seed\<close> is one of them: its state vector is the copy made at address 2.
  \<open>used\<close> is the generator built from \<open>seed3\<close> after it has served one
  \<^verbatim>\<open>randBits(7)\<close>, and \<open>reseeded\<close> is that generator after a following
  \<^verbatim>\<open>set_state(zeros, 0)\<close>; \<open>pristine\<close> is a generator built from \<open>zeros\<close> after
  the same \<^verbatim>\<open>set_state(zeros, 0)\<close>.
\<close>

definition gen1 :: WELL where
  "gen1 = \<lparr>p_state = 2, p_n = 0, next_bit = 32, bit_state = Undefined\<rparr>"

definition used :: "heap \<times> WELL" where
  "used = snd (randBits 7 ([zeros, seed3, seed3], gen1))"

definition reseeded :: "heap \<times> WELL" where
  "reseeded = snd (set_state 0 (Some 0) used)"

definition pristine :: "heap \<times> WELL" where
  "pristine = snd (set_state 0 (Some 0) ([zeros, seed3, zeros], gen1))"

section \<open>Rounding\<close>

text \<open>
  An integer of magnitude up to \<open>2^53\<close> is a double, so sums and differences that stay
  in this range are exact; an integer from \<open>2^53\<close> to \<open>2^54\<close> rounds to an integer
  in the same range.
\<close>

lemma double_round_neg: "double_round (- x) = - double_round x"
  by (simp add: double_round_def Let_def)

lemma bitlen_1: "bitlen 1 = 1"
  by (simp add: bitlen_alt_def)

lemma bitlen_pos: "0 < n \<Longrightarrow> 1 \<le> bitlen n"
  using bitlen_nonneg [of n] bitlen_eq_zero_iff [of n] by (simp add: order_less_le)

lemma bitlen_lo:
  assumes "0 < n"
  shows "(2::rat) powi (bitlen n - 1) \<le> of_int n"
proof -
  from bitlen_bounds [OF assms] have "2 ^ nat (bitlen n - 1) \<le> n" by simp
  then have "(of_int (2 ^ nat (bitlen n - 1)) :: rat) \<le> of_int n"
    by (simp only: of_int_le_iff)
  moreover have "(2::rat) powi (bitlen n - 1) = of_int (2 ^ nat (bitlen n - 1))"
    using bitlen_pos [OF assms] by (simp add: power_int_def)
  ultimately show ?thesis by simp
qed

lemma double_round_of_int:
  assumes "0 < n"
  shows "double_round (of_int n) =
    (let u = 2 powi (bitlen n - 53);
         m = of_int n / u;
         f = \<lfloor>m\<rfloor>;
         d = m - of_int f;
         k = (if d < 1 / 2 then f else if 1 / 2 < d then f + 1 else if even f then f else f + 1)
     in of_int k * u)"
proof -
  have q: "quotient_of (\<bar>of_int n\<bar> :: rat) = (n, 1)"
    using assms by (simp flip: of_int_abs)
  have e: "\<not> \<bar>of_int n :: rat\<bar> < 2 powi (bitlen n - 1)"
    using bitlen_lo [OF assms] assms by (simp add: not_less)
  have s: "sgn (of_int n :: rat) = 1" "(of_int n :: rat) \<noteq> 0"
    using assms by simp_all
  have a: "\<bar>of_int n :: rat\<bar> = of_int n" using assms by simp
  have d: "bitlen n - 1 - 52 = bitlen n - 53" by simp
  show ?thesis
    unfolding double_round_def Let_def q fst_conv snd_conv bitlen_1
    using e s unfolding a d by simp
qed


lemma double_round_int_pos:
  assumes "0 < n" "n < 2 ^ 53"
  shows "double_round (of_int n) = of_int n"
proof -
  define j where "j = nat (53 - bitlen n)"
  have b: "bitlen n \<le> 53"
    using assms(2) bitlen_le_iff_power [of n 53] by simp
  then have u: "(2::rat) powi (bitlen n - 53) = 1 / 2 ^ j"
    by (simp add: power_int_def j_def field_simps)
  have m: "(of_int n :: rat) / (1 / 2 ^ j) = of_int (n * 2 ^ j)"
    by simp
  show ?thesis
    unfolding double_round_of_int [OF assms(1)] Let_def u m
    by simp
qed

lemma double_round_int:
  assumes "\<bar>n\<bar> \<le> 2 ^ 53"
  shows "double_round (of_int n) = of_int n"
proof -
  have top: "double_round (2 ^ 53) = 2 ^ 53" by code_simp
  have pos: "double_round (of_int k) = of_int k" if "0 \<le> k" "k \<le> 2 ^ 53" for k
  proof (cases "k = 0 \<or> k = 2 ^ 53")
    case True
    then show ?thesis using top by (auto simp add: double_round_def)
  next
    case False
    with that have "0 < k" "k < 2 ^ 53" by simp_all
    then show ?thesis by (rule double_round_int_pos)
  qed
  show ?thesis
  proof (cases "0 \<le> n")
    case True
    with assms show ?thesis by (intro pos) simp_all
  next
    case False
    with assms have "double_round (of_int (- n)) = of_int (- n)" by (intro pos) simp_all
    then show ?thesis using double_round_neg [of "of_int n"] by simp
  qed
qed

lemma fl_int:
  assumes "\<bar>n\<bar> \<le> 2 ^ 53"
  shows "fl (of_int n) = Fin (of_int n)"
proof -
  have "(of_int n :: rat) \<le> of_int (2 ^ 53)" "(of_int (- (2 ^ 53)) :: rat) \<le> of_int n"
    using assms by simp_all
  moreover have "(of_int (2 ^ 53) :: rat) < 2 ^ 1024" "- (2 ^ 1024) < (of_int (- (2 ^ 53)) :: rat)"
    by simp_all
  ultimately have "(of_int n :: rat) < 2 ^ 1024" "- (2 ^ 1024) < (of_int n :: rat)"
    by linarith+
  then show ?thesis
    by (simp add: fl_def double_round_int [OF assms] not_le)
qed

lemma double_round_int_big:
  assumes "2 ^ 53 \<le> n" "n < 2 ^ 54"
  shows "\<exists>k. double_round (of_int n) = of_int k \<and> 2 ^ 53 \<le> k \<and> k \<le> 2 ^ 54"
proof -
  have pos: "0 < n" using assms(1) by (rule less_le_trans [rotated]) simp
  have "bitlen n \<le> 54" using assms(2) bitlen_le_iff_power [of n 54] by simp
  moreover have "54 \<le> bitlen n" using assms(1) bitlen_ge_iff_power [of 54 n] by simp
  ultimately have b: "bitlen n = 54" by simp
  have u: "(2::rat) powi (bitlen n - 53) = 2" by (simp add: b)
  have f: "\<lfloor>(of_int n :: rat) / 2\<rfloor> = n div 2"
    using floor_divide_of_int_eq [of n 2, where ?'a = rat] by simp
  define k where "k = (let m = (of_int n :: rat) / 2; f = \<lfloor>m\<rfloor>; d = m - of_int f
     in if d < 1 / 2 then f else if 1 / 2 < d then f + 1 else if even f then f else f + 1)"
  have kk: "k = n div 2 \<or> k = n div 2 + 1"
    by (auto simp add: k_def Let_def f)
  have "double_round (of_int n) = of_int k * 2"
    unfolding double_round_of_int [OF pos] u k_def Let_def by simp
  then have "double_round (of_int n) = of_int (k * 2)" by simp
  moreover have "2 ^ 53 \<le> k * 2" "k * 2 \<le> 2 ^ 54"
    using kk assms by auto
  ultimately show ?thesis by blast
qed

lemma js_add_int:
  assumes "\<bar>n + k\<bar> \<le> 2 ^ 53"
  shows "js_add (Fin (of_int n)) (Fin (of_int k)) = Fin (of_int (n + k))"
  using fl_int [OF assms] by simp

lemma js_sub_int:
  assumes "\<bar>n - k\<bar> \<le> 2 ^ 53"
  shows "js_sub (Fin (of_int n)) (Fin (of_int k)) = Fin (of_int (n - k))"
  using fl_int [OF assms] by (simp add: js_sub_def)

lemma js_rem_int:
  assumes "0 \<le> r" "0 < d"
  shows "js_rem (Fin (of_int r)) (Fin (of_int d)) = Fin (of_int (r mod d))"
proof -
  have "\<lfloor>(of_int r :: rat) / of_int d\<rfloor> = r div d"
    by (rule floor_divide_of_int_eq)
  then have "\<bar>of_int r :: rat\<bar> - \<bar>of_int d\<bar> * of_int \<lfloor>\<bar>of_int r :: rat\<bar> / \<bar>of_int d\<bar>\<rfloor>
      = of_int (r - d * (r div d))"
    using assms by simp
  also have "r - d * (r div d) = r mod d"
    by (simp add: minus_mult_div_eq_mod)
  finally show ?thesis
    using assms by (cases "r = 0") simp_all
qed

section \<open>Bit-level facts\<close>

text \<open>
  Masking with 31 is reduction modulo 32; a word masked to fewer than 32 bits reads as a
  Number that is not negative; under such a mask the sign-replicating shift cannot be told
  from the logical one as long as offset and width stay within the word.
\<close>

lemma and31_mod: "and31 x = x mod 32"
proof -
  have "(word_of_int x :: 32 word) AND 31 = take_bit 5 (word_of_int x)"
    using take_bit_eq_mask[of 5 "word_of_int x :: 32 word"] by (simp add: mask_eq_exp_minus_1)
  also have "\<dots> = word_of_int (take_bit 5 x)"
    by (rule bit_word_eqI) (auto simp add: bit_simps)
  finally have "and31 x = sint (word_of_int (take_bit 5 x) :: 32 word)"
    unfolding and31_def by simp
  also have "\<dots> = signed_take_bit 31 (x mod 32)"
    by (simp add: sint_sbintrunc' take_bit_eq_mod)
  also have "\<dots> = x mod 32"
    by (rule signed_take_bit_int_eq_self) (simp_all add: pos_mod_bound [THEN less_trans])
  finally show ?thesis .
qed

lemma and31_range: "0 \<le> and31 x" "and31 x < 32"
  by (simp_all add: and31_mod)

lemma idx_range: "0 \<le> idx n k" "idx n k < 32"
  by (simp_all add: idx_def and31_range)

lemma trunc_int_of_int: "trunc_int (Fin (of_int m)) = m"
  by simp

lemma idx_small:
  assumes "\<bar>n + k\<bar> \<le> 2 ^ 53"
  shows "idx n k = (n + k) mod 32"
  unfolding idx_def js_add_int [OF assms] trunc_int_of_int by (rule and31_mod)

lemma sint_and_mask:
  fixes w :: "32 word"
  assumes "n < 32"
  shows "sint (w AND mask n) = take_bit n (uint w)"
proof -
  have "uint (w AND mask n) = take_bit n (uint w)"
    by (simp flip: take_bit_eq_mask add: unsigned_take_bit_eq)
  moreover have "signed_take_bit 31 (take_bit n (uint w)) = take_bit n (uint w)"
  proof (rule signed_take_bit_int_eq_self)
    show "- (2 ^ 31) \<le> take_bit n (uint w)"
      by (rule order_trans [of _ 0]) simp_all
    have "take_bit n (uint w) < 2 ^ n" by simp
    also have "(2::int) ^ n \<le> 2 ^ 31" using assms by (intro power_increasing) simp_all
    finally show "take_bit n (uint w) < 2 ^ 31" .
  qed
  ultimately show ?thesis by (simp add: sint_uint)
qed

lemma and_mask_range:
  fixes x :: "32 word"
  assumes "n < 32"
  shows "0 \<le> sint (x AND mask n) \<and> sint (x AND mask n) \<le> 2 ^ n - 1"
proof -
  have "take_bit n (uint x) < 2 ^ n" by simp
  then show ?thesis using assms by (simp add: sint_and_mask)
qed

lemma positive_mask_word: "ToInt32 (Num positive_mask) = mask 31"
  by (simp add: positive_mask_def mask_eq_exp_minus_1)

lemma mask_num:
  assumes "1 \<le> bits" "bits \<le> 31"
  shows "ToInt32 (Num (sint (shl 1 bits) - 1)) = mask (nat bits)"
proof -
  have "bits mod 32 = bits" using assms by simp
  then show ?thesis
    by (simp add: shl_def mask_eq_exp_minus_1)
qed

lemma sar_and_mask:
  assumes "0 \<le> u" "1 \<le> bits" "u + bits \<le> 32"
  shows "sar w u AND mask (nat bits) = drop_bit (nat u) w AND mask (nat bits)"
proof -
  have u: "u mod 32 = u" using assms by simp
  show ?thesis
    unfolding sar_def u
    using assms by (intro bit_word_eqI) (auto simp add: bit_simps)
qed

lemma sar_0: "sar w 0 = w"
  by (simp add: sar_def)

section \<open>Arrays\<close>

lemma js_get_js_set_same: "0 \<le> i \<Longrightarrow> i < 32 \<Longrightarrow> js_get (js_set xs i v) i = v"
  by (auto simp add: js_get_def js_set_def nth_append)

lemma length_js_set:
  "0 \<le> i \<Longrightarrow> i < int (length xs) \<Longrightarrow> i < 32 \<Longrightarrow> length (js_set xs i v) = length xs"
  by (simp add: js_set_def)

lemma js_set_update:
  "0 \<le> i \<Longrightarrow> i < int (length xs) \<Longrightarrow> i < 32 \<Longrightarrow> js_set xs i v = xs[nat i := v]"
  by (simp add: js_set_def)

lemma replicate_update_same: "(replicate n x)[i := x] = replicate n x"
proof (induction n arbitrary: i)
  case 0
  show ?case by simp
next
  case (Suc n)
  then show ?case by (cases i) simp_all
qed

section \<open>One transition step\<close>

text \<open>
  \<^verbatim>\<open>rand\<close> replaces the array at the generator's address and the pointer, and nothing
  else; its result is an int32, and without \<open>incNeg\<close> the same word with the sign bit
  cleared.
\<close>

lemma rand_shape:
  "\<exists>r S2. rand b (h, g) = (r, h[p_state g := S2], g\<lparr>p_n := idx (p_n g) 31\<rparr>)"
  by (simp add: rand_def Let_def) blast

lemma rand_p_state [simp]: "p_state (snd (snd (rand b hg))) = p_state (snd hg)"
  using rand_shape [of b "fst hg" "snd hg"] by auto

lemma rand_next_bit [simp]: "next_bit (snd (snd (rand b hg))) = next_bit (snd hg)"
  using rand_shape [of b "fst hg" "snd hg"] by auto

lemma rand_bit_state [simp]: "bit_state (snd (snd (rand b hg))) = bit_state (snd hg)"
  using rand_shape [of b "fst hg" "snd hg"] by auto

lemma rand_p_n:
  assumes "\<bar>p_n (snd hg) + 31\<bar> \<le> 2 ^ 53"
  shows "p_n (snd (snd (rand b hg))) = (p_n (snd hg) + 31) mod 32"
  using rand_shape [of b "fst hg" "snd hg"] idx_small [OF assms] by auto

lemma rand_heap_length [simp]: "length (fst (snd (rand b hg))) = length (fst hg)"
  using rand_shape [of b "fst hg" "snd hg"] by auto

lemma rand_heap_other: "a \<noteq> p_state (snd hg) \<Longrightarrow> fst (snd (rand b hg)) ! a = fst hg ! a"
  using rand_shape [of b "fst hg" "snd hg"] by auto

lemma rand_arr_length:
  assumes "inv32 (h, g)"
  shows "inv32 (snd (rand b (h, g)))"
  using assms
  by (simp add: inv32_def rand_def Let_def idx_small length_js_set)

lemma rand_writes:
  assumes "inv32 (h, g)"
  shows "\<exists>x y. fst (snd (rand b (h, g))) ! p_state g = (h ! p_state g)[nat (p_n g) := x, nat ((p_n g + 31) mod 32) := y]"
  using assms
  by (simp add: inv32_def rand_def Let_def idx_small js_set_update) blast

lemma rand_True_result: "\<exists>w. fst (rand True hg) = int32 w"
  by (cases hg) (simp add: rand_def Let_def js_get_js_set_same idx_range, blast)

lemma rand_False_result: "\<exists>w. fst (rand False hg) = int32 (w AND ToInt32 (Num positive_mask))"
  by (cases hg) (simp add: rand_def Let_def js_get_js_set_same idx_range, blast)

lemma rand_False_True: "fst (rand False hg) = int32 (ToInt32 (fst (rand True hg)) AND ToInt32 (Num positive_mask))"
  by (cases hg) (simp add: rand_def Let_def)

lemma rand_incNeg_state: "snd (rand b hg) = snd (rand True hg)"
  by (cases hg) (simp add: rand_def Let_def)

lemma rand_False_range:
  "\<exists>r. fst (rand False hg) = Num r \<and> 0 \<le> r \<and> r \<le> 2 ^ 31 - 1"
proof -
  obtain w where "fst (rand False hg) = int32 (w AND mask 31)"
    using rand_False_result [of hg, unfolded positive_mask_word] by blast
  with and_mask_range [of 31 w] show ?thesis by (auto simp add: int32_def)
qed

section \<open>The calls, unfolded\<close>

lemma set_state_ok:
  assumes "length (h ! a) = 32"
  shows "set_state a sp (h, g)
    = (None, h @ [h ! a], g\<lparr>p_n := (case sp of None \<Rightarrow> 0 | Some p \<Rightarrow> p), p_state := length h\<rparr>)"
  using assms by (auto simp add: set_state_def slice0_def split: option.splits)

lemma WELL_new_ok:
  assumes "length (h ! a) = 32"
  shows "WELL_new rnd (Some a) h
    = (Inr \<lparr>p_state = length h, p_n = 0, next_bit = 32, bit_state = Undefined\<rparr>, h @ [h ! a])"
  using assms by (simp add: WELL_new_def set_state_ok blank_def)

lemma get_state_eq: "get_state (h, g) = (length h, h @ [h ! p_state g])"
  by (simp add: get_state_def slice0_def)

lemma randBits_alt:
  "randBits bits hg =
     (if bits + next_bit (snd hg) \<le> 32
      then (int32 (sar (ToInt32 (bit_state (snd hg))) (next_bit (snd hg))
                     AND ToInt32 (Num (sint (shl 1 bits) - 1))),
            fst hg, (snd hg)\<lparr>next_bit := next_bit (snd hg) + bits\<rparr>)
      else (int32 (sar (ToInt32 (fst (rand True hg))) 0
                     AND ToInt32 (Num (sint (shl 1 bits) - 1))),
            fst (snd (rand True hg)),
            (snd (snd (rand True hg)))\<lparr>bit_state := fst (rand True hg), next_bit := bits\<rparr>))"
  by (cases hg) (simp add: randBits_def Let_def split: prod.splits)

lemma random_alt:
  "random b hg = (map_option (\<lambda>i. double_round (of_int i * scale)) (ToNumber (fst (rand b hg))),
                  snd (rand b hg))"
  by (simp add: random_def split: prod.splits)

lemma randInt_alt:
  "randInt a b hg =
     (js_add (js_rem (Number_of (fst (rand False hg)))
                (js_sub (js_add (Fin 1) (Fin (of_int b))) (Fin (of_int a))))
        (Fin (of_int a)),
      snd (rand False hg))"
  by (simp add: randInt_def Let_def split: prod.splits)

text \<open>
  A generator that the constructor returns has a state vector of 32 entries, the pointer
  0 and an empty bit cache, with or without a seed; and with widths between 1 and 31 the
  offset of the cache stays between 1 and 32.
\<close>

lemma WELL_new_default:
  "\<exists>g h'. WELL_new rnd None h = (Inr g, h') \<and> inv32 (h', g) \<and> next_bit g = 32
     \<and> bit_state g = Undefined"
  by (simp add: WELL_new_def genstate_def set_state_ok blank_def inv32_def nth_append)

lemma WELL_new_inv32:
  assumes "WELL_new rnd (Some a) h = (Inr g, h')"
  shows "inv32 (h', g) \<and> next_bit g = 32 \<and> bit_state g = Undefined \<and> h' ! p_state g = h ! a"
proof (cases "length (h ! a) = 32")
  case True
  with assms show ?thesis by (auto simp add: WELL_new_ok inv32_def)
next
  case False
  with assms show ?thesis by (simp add: WELL_new_def set_state_def)
qed

lemma randBits_offset_range:
  assumes "1 \<le> bits" and "bits \<le> 31" and "0 \<le> next_bit g"
  shows "1 \<le> next_bit (snd (snd (randBits bits (h, g))))
       \<and> next_bit (snd (snd (randBits bits (h, g)))) \<le> 32"
  using assms by (simp add: randBits_alt)

section \<open>The draws see the view only\<close>

text \<open>
  Two generators with the same view give the same outputs and have the same view
  afterwards, wherever their vectors lie in the store; and a draw writes to no array but
  the generator's own.
\<close>

lemma view_eq_iff:
  "view hg = view hg' \<longleftrightarrow>
     fst hg ! p_state (snd hg) = fst hg' ! p_state (snd hg') \<and> p_n (snd hg) = p_n (snd hg')
     \<and> next_bit (snd hg) = next_bit (snd hg') \<and> bit_state (snd hg) = bit_state (snd hg')"
  by (simp add: view_def case_prod_beta)

lemma rand_view:
  assumes "valid hg" "valid hg'" "view hg = view hg'"
  shows "fst (rand b hg) = fst (rand b hg') \<and> view (snd (rand b hg)) = view (snd (rand b hg'))"
  using assms
  by (cases hg; cases hg') (simp add: rand_def Let_def view_def valid_def)

lemma valid_rand: "valid hg \<Longrightarrow> valid (snd (rand b hg))"
  by (simp add: valid_def case_prod_beta)

lemma valid_randBits: "valid hg \<Longrightarrow> valid (snd (randBits bits hg))"
  by (simp add: valid_def case_prod_beta randBits_alt)

lemma valid_step: "valid hg \<Longrightarrow> valid (snd (step c hg))"
  by (cases c) (simp_all add: case_prod_beta random_alt randInt_alt valid_rand valid_randBits)

lemma randBits_view:
  assumes "valid hg" "valid hg'" "view hg = view hg'"
  shows "fst (randBits bits hg) = fst (randBits bits hg')
       \<and> view (snd (randBits bits hg)) = view (snd (randBits bits hg'))"
proof -
  from assms(3) have c: "next_bit (snd hg) = next_bit (snd hg')" "bit_state (snd hg) = bit_state (snd hg')"
    "fst hg ! p_state (snd hg) = fst hg' ! p_state (snd hg')" "p_n (snd hg) = p_n (snd hg')"
    by (simp_all add: view_eq_iff)
  from rand_view [OF assms, of True]
  have r: "fst (rand True hg) = fst (rand True hg')"
    "fst (snd (rand True hg)) ! p_state (snd hg) = fst (snd (rand True hg')) ! p_state (snd hg')"
    "p_n (snd (snd (rand True hg))) = p_n (snd (snd (rand True hg')))"
    by (simp_all add: view_eq_iff)
  show ?thesis
    by (simp add: randBits_alt view_eq_iff c r)
qed

lemma step_view:
  assumes "valid hg" "valid hg'" "view hg = view hg'"
  shows "fst (step c hg) = fst (step c hg') \<and> view (snd (step c hg)) = view (snd (step c hg'))"
proof (cases c)
  case (Rand b)
  with rand_view [OF assms, of b] show ?thesis by (simp add: case_prod_beta)
next
  case (Random b)
  with rand_view [OF assms, of b] show ?thesis by (simp add: case_prod_beta random_alt)
next
  case (RandInt a b)
  with rand_view [OF assms, of False] show ?thesis by (simp add: case_prod_beta randInt_alt)
next
  case (RandBits bits)
  with randBits_view [OF assms, of bits] show ?thesis by (simp add: case_prod_beta)
qed

lemma run_view:
  assumes "valid hg" "valid hg'" "view hg = view hg'"
  shows "fst (run cs hg) = fst (run cs hg') \<and> view (snd (run cs hg)) = view (snd (run cs hg'))"
  using assms
proof (induction cs arbitrary: hg hg')
  case Nil
  then show ?case by simp
next
  case (Cons c cs)
  from step_view [OF Cons.prems, of c]
  have s: "fst (step c hg) = fst (step c hg')" "view (snd (step c hg)) = view (snd (step c hg'))"
    by simp_all
  from Cons.IH [OF valid_step [OF Cons.prems(1)] valid_step [OF Cons.prems(2)] s(2)] s(1)
  show ?case by (simp add: case_prod_beta)
qed

lemma step_frame:
  "p_state (snd (snd (step c hg))) = p_state (snd hg)
   \<and> length (fst (snd (step c hg))) = length (fst hg)
   \<and> (a \<noteq> p_state (snd hg) \<longrightarrow> fst (snd (step c hg)) ! a = fst hg ! a)"
  by (cases c) (simp_all add: case_prod_beta random_alt randInt_alt randBits_alt rand_heap_other)

lemma run_frame:
  "p_state (snd (snd (run cs hg))) = p_state (snd hg)
   \<and> length (fst (snd (run cs hg))) = length (fst hg)
   \<and> (a \<noteq> p_state (snd hg) \<longrightarrow> fst (snd (run cs hg)) ! a = fst hg ! a)"
proof (induction cs arbitrary: hg)
  case Nil
  show ?case by simp
next
  case (Cons c cs)
  from Cons.IH [of "snd (step c hg)"] step_frame [of c hg a]
  show ?case by (simp add: case_prod_beta)
qed

section \<open>Evaluations\<close>

text \<open>
  The calls evaluated at the seeds. With the pointer 32 the first store of \<^verbatim>\<open>rand\<close>
  goes to index 32 and the array grows to 33 entries; with the pointer \<open>2^53\<close> the sum
  \<^verbatim>\<open>_n + 31\<close> rounds to \<open>2^53 + 32\<close>, and a store at \<open>2^32 - 1\<close> or at \<open>-1\<close> leaves
  the elements alone. \<open>double_round\<close> is checked against known doubles: the double
  nearest to one tenth, and ties at \<open>2^53\<close>. The last two are the arithmetic of
  \<^verbatim>\<open>randInt(2^53, 2^53 + 2)\<close> and \<^verbatim>\<open>randInt(2^53, 2^53)\<close> on the draw \<open>2^31 - 1\<close>.
\<close>

lemma zeros_len: "length zeros = 32"
  by (simp add: zeros_def)

lemma seed3_len: "length seed3 = 32"
  by (simp add: seed3_def)

lemma seed24_len: "length seed24 = 32"
  by (simp add: seed24_def)

lemma rand_seed3:
  "rand True ([zeros, seed3, seed3], gen1)
     = (Num 129, [zeros, seed3, seed3[0 := Num 1, 31 := Num 129]], gen1\<lparr>p_n := 31\<rparr>)"
  by (simp add: rand_def Let_def gen1_def seed3_def js_get_def js_set_def idx_small shl_def sar_def
      int32_def)

lemma rand_False_seed3: "fst (rand False ([zeros, seed3, seed3], gen1)) = Num 129"
  by (simp add: rand_False_True rand_seed3 int32_def positive_mask_def)

lemma used_eq:
  "used = ([zeros, seed3, seed3[0 := Num 1, 31 := Num 129]],
           \<lparr>p_state = 2, p_n = 31, next_bit = 7, bit_state = Num 129\<rparr>)"
  by (simp add: used_def randBits_alt rand_seed3) (simp add: gen1_def)

lemma reseeded_eq:
  "reseeded = ([zeros, seed3, seed3[0 := Num 1, 31 := Num 129], zeros],
           \<lparr>p_state = 3, p_n = 0, next_bit = 7, bit_state = Num 129\<rparr>)"
  by (simp add: reseeded_def used_eq set_state_ok zeros_len)

lemma pristine_eq:
  "pristine = ([zeros, seed3, zeros, zeros],
           \<lparr>p_state = 3, p_n = 0, next_bit = 32, bit_state = Undefined\<rparr>)"
  by (simp add: pristine_def gen1_def set_state_ok zeros_len)

lemma rand_zeros:
  "rand True ([zeros, seed3, zeros, zeros], \<lparr>p_state = 3, p_n = 0, next_bit = 32, bit_state = Undefined\<rparr>)
     = (Num 0, [zeros, seed3, zeros, zeros], \<lparr>p_state = 3, p_n = 31, next_bit = 32, bit_state = Undefined\<rparr>)"
  by (simp add: rand_def Let_def zeros_def js_get_def js_set_def idx_small shl_def sar_def
      int32_def replicate_update_same)

lemma rand_seed24:
  "fst (rand False ([seed24, zeros, seed24], gen1)) = Num 2147483647"
  by (simp add: rand_def Let_def gen1_def seed24_def js_get_def js_set_def idx_small shl_def sar_def
      int32_def positive_mask_def)

lemma inv32_gen1: "inv32 ([zeros, seed3, seed3], gen1)"
  by (simp add: inv32_def gen1_def seed3_len)

lemma rand_pointer_32:
  "length (fst (snd (rand False ([zeros], \<lparr>p_state = 0, p_n = 32, next_bit = 32, bit_state = Undefined\<rparr>))) ! 0) = 33"
  by (simp add: rand_def Let_def zeros_def js_get_def js_set_def idx_small)

lemma scale_eq: "scale = (2 ^ 31 + 1) / 2 ^ 62"
  by code_simp

lemma double_round_top: "double_round (2147483647 * scale) = 1"
  by code_simp

lemma double_round_tenth: "double_round (1 / 10) = 3602879701896397 / 2 ^ 55"
  by code_simp

lemma double_round_tie_even: "double_round (2 ^ 53 + 1) = 2 ^ 53 \<and> double_round (2 ^ 53 + 3) = 2 ^ 53 + 4"
  by code_simp

lemma fl_Fin:
  assumes "double_round x = y" "- (2 ^ 1024) < y" "y < 2 ^ 1024"
  shows "fl x = Fin y"
  using assms by (simp add: fl_def not_le)

lemma fl_tie_up: "fl (2 ^ 53 + 3) = Fin (2 ^ 53 + 4)"
proof (rule fl_Fin)
  show "double_round (2 ^ 53 + 3) = 2 ^ 53 + 4" by code_simp
qed simp_all

lemma fl_tie_down: "fl (2 ^ 53 + 1) = Fin (2 ^ 53)"
proof (rule fl_Fin)
  show "double_round (2 ^ 53 + 1) = 2 ^ 53" by code_simp
qed simp_all

lemma idx_rounds: "idx (2 ^ 53) 31 = 0"
proof -
  have "fl (2 ^ 53 + 31) = Fin (2 ^ 53 + 32)"
  proof (rule fl_Fin)
    show "double_round (2 ^ 53 + 31) = 2 ^ 53 + 32" by code_simp
  qed simp_all
  then have "js_add (Fin (of_int (2 ^ 53))) (Fin (of_int 31)) = Fin (of_int (2 ^ 53 + 32))"
    by simp
  then show ?thesis
    unfolding idx_def trunc_int_of_int and31_mod by simp
qed

lemma js_set_named_property: "js_set zeros (2 ^ 32 - 1) v = zeros \<and> js_set zeros (- 1) v = zeros"
  by (simp add: js_set_def)

lemma randInt_2_53_2:
  "js_add (js_rem (Fin 2147483647)
               (js_sub (js_add (Fin 1) (Fin (2 ^ 53 + 2))) (Fin (2 ^ 53))))
             (Fin (2 ^ 53)) = Fin (2 ^ 53 + 4)"
proof -
  have s1: "js_add (Fin 1) (Fin (2 ^ 53 + 2)) = Fin (2 ^ 53 + 4)"
    using fl_tie_up by simp
  have s2: "js_sub (Fin (2 ^ 53 + 4)) (Fin (2 ^ 53)) = Fin 4"
    using fl_int [of 4] by (simp add: js_sub_def)
  have s3: "js_rem (Fin 2147483647) (Fin 4) = Fin 3"
    using js_rem_int [of 2147483647 4] by simp
  have s4: "js_add (Fin 3) (Fin (2 ^ 53)) = Fin (2 ^ 53 + 4)"
    using fl_tie_up by simp
  show ?thesis unfolding s1 s2 s3 s4 ..
qed

lemma randInt_2_53_0:
  "js_add (js_rem (Fin 2147483647)
               (js_sub (js_add (Fin 1) (Fin (2 ^ 53))) (Fin (2 ^ 53))))
             (Fin (2 ^ 53)) = NaN"
proof -
  have s1: "js_add (Fin 1) (Fin (2 ^ 53)) = Fin (2 ^ 53)"
    using fl_tie_down by simp
  have s2: "js_sub (Fin (2 ^ 53)) (Fin (2 ^ 53)) = Fin 0"
    using fl_int [of 0] by (simp add: js_sub_def)
  show ?thesis unfolding s1 s2 by simp
qed

section \<open>Reference vector\<close>

text \<open>
  C1. A generator whose state vector is all zero except for the word 1 at index 3, with
  pointer 0, returns exactly 129 from its next \<^verbatim>\<open>rand(false)\<close>, whatever its bit cache
  holds and wherever its vector lies in the store.
\<close>

theorem rand_reference_vector_2:
  assumes "h ! p_state g = seed3" and "p_n g = 0"
  shows "fst (rand False (h, g)) = Num 129"
  using assms
  by (simp add: rand_def Let_def seed3_def js_get_def js_set_def idx_small shl_def sar_def
      int32_def positive_mask_def)

theorem rand_reference_vector_2_witness:
  "[seed3, seed3] ! p_state \<lparr>p_state = 1, p_n = 0, next_bit = 32, bit_state = Undefined\<rparr> = seed3
   \<and> p_n \<lparr>p_state = 1, p_n = 0, next_bit = 32, bit_state = Undefined\<rparr> = 0
   \<and> WELL_new (\<lambda>_. 0) (Some 0) [seed3]
       = (Inr \<lparr>p_state = 1, p_n = 0, next_bit = 32, bit_state = Undefined\<rparr>, [seed3, seed3])
   \<and> fst (rand False ([seed3, seed3],
         \<lparr>p_state = 1, p_n = 0, next_bit = 32, bit_state = Undefined\<rparr>)) = Num 129"
  using rand_reference_vector_2
    [of "[seed3, seed3]" "\<lparr>p_state = 1, p_n = 0, next_bit = 32, bit_state = Undefined\<rparr>"]
  by (simp add: WELL_new_def set_state_def slice0_def blank_def seed3_def)

section \<open>Replacing the state\<close>

text \<open>
  C2 (as stated, refuted). The claim says that a successful \<^verbatim>\<open>set_state\<close> leaves the
  pointer at \<open>p mod 32\<close>. With the pointer argument 32 the call succeeds and the stored
  pointer is 32, not 0.
\<close>

theorem set_state_pointer_not_reduced:
  "fst (set_state 0 (Some 32) ([zeros, seed3, zeros], gen1)) = None
   \<and> p_n (snd (snd (set_state 0 (Some 32) ([zeros, seed3, zeros], gen1)))) = 32
   \<and> p_n (snd (snd (set_state 0 (Some 32) ([zeros, seed3, zeros], gen1)))) \<noteq> 32 mod 32"
  by (simp add: set_state_def slice0_def zeros_len)

text \<open>
  C2 (amended). For every 32-word vector and every integer pointer argument \<open>p\<close>, a
  successful \<^verbatim>\<open>set_state\<close> stores \<open>p\<close> itself as the state pointer, unreduced; the
  stored pointer equals \<open>p mod 32\<close> exactly when \<open>0 \<le> p < 32\<close>. With the pointer
  omitted it stores 0.
\<close>

theorem set_state_pointer_as_given:
  assumes "length (h ! a) = 32"
  shows "fst (set_state a (Some p) (h, g)) = None
    \<and> p_n (snd (snd (set_state a (Some p) (h, g)))) = p
    \<and> (p_n (snd (snd (set_state a (Some p) (h, g)))) = p mod 32 \<longleftrightarrow> 0 \<le> p \<and> p < 32)
    \<and> p_n (snd (snd (set_state a None (h, g)))) = 0"
  using assms by (auto simp add: set_state_def slice0_def)

theorem set_state_pointer_as_given_witness:
  "length ([zeros, seed3, zeros] ! 0) = 32
    \<and> fst (set_state 0 (Some 40) ([zeros, seed3, zeros], gen1)) = None
    \<and> p_n (snd (snd (set_state 0 (Some 40) ([zeros, seed3, zeros], gen1)))) = 40"
  using set_state_pointer_as_given [of "[zeros, seed3, zeros]" 0 40 gen1]
  by (simp add: zeros_len)

text \<open>
  C3 (the code at the failing input). A generator built from \<open>seed3\<close> serves
  \<^verbatim>\<open>randBits(7)\<close>, which refills the cache with the word 129 and leaves the offset at 7.
  The following \<^verbatim>\<open>set_state(zeros, 0)\<close> succeeds and leaves the offset at 7 and the
  cached word 129 in place: the next \<^verbatim>\<open>randBits(7)\<close> takes bits 7..13 of the old word,
  returns 1, and runs no transition step (store and pointer are as \<^verbatim>\<open>set_state\<close> left
  them). Only the constructor sets the offset to 32.
\<close>

theorem set_state_keeps_bit_cache:
  "WELL_new (\<lambda>_. 0) (Some 1) [zeros, seed3] = (Inr gen1, [zeros, seed3, seed3])
   \<and> fst (randBits 7 ([zeros, seed3, seed3], gen1)) = Num 1
   \<and> fst (set_state 0 (Some 0) used) = None
   \<and> next_bit (snd reseeded) = 7
   \<and> bit_state (snd reseeded) = Num 129
   \<and> randBits 7 reseeded = (Num 1, fst reseeded, (snd reseeded)\<lparr>next_bit := 14\<rparr>)"
  apply (intro conjI)
       apply (simp add: WELL_new_def set_state_def slice0_def blank_def gen1_def seed3_len)
      apply (simp add: randBits_alt rand_seed3)
      apply (simp add: gen1_def sar_def shl_def int32_def)
     apply (simp add: used_eq set_state_ok zeros_len)
    apply (simp add: reseeded_eq)
   apply (simp add: reseeded_eq)
  apply (simp add: reseeded_eq randBits_alt sar_def shl_def int32_def)
  done

text \<open>
  C6. \<^verbatim>\<open>set_state\<close> with a vector whose length is not 32 throws the one error of the
  module and changes nothing: the store (so the generator's state vector), the pointer and
  the bit cache are as before the call. The constructor given such a vector throws the
  same error, returns no object and leaves the store as it was.
\<close>

theorem set_state_wrong_length:
  assumes "length (h ! a) \<noteq> 32"
  shows "set_state a sp (h, g) = (Some TypeError, h, g)
    \<and> WELL_new rnd (Some a) h = (Inl TypeError, h)"
  using assms by (simp add: set_state_def WELL_new_def)

theorem set_state_wrong_length_witness:
  "length ([zeros, [Num 1, Num 2], zeros] ! 1) \<noteq> 32
    \<and> set_state 1 (Some 0) ([zeros, [Num 1, Num 2], zeros], gen1)
        = (Some TypeError, [zeros, [Num 1, Num 2], zeros], gen1)
    \<and> WELL_new (\<lambda>_. 0) (Some 1) [zeros, [Num 1, Num 2], zeros]
        = (Inl TypeError, [zeros, [Num 1, Num 2], zeros])"
  using set_state_wrong_length [of "[zeros, [Num 1, Num 2], zeros]" 1 "Some 0" gen1 "\<lambda>_. 0"]
  by simp

section \<open>Floats in the unit interval\<close>

text \<open>
  C4 (the code at the failing input). With the state vector \<open>seed24\<close> and pointer 0,
  \<^verbatim>\<open>rand(false)\<close> returns \<open>2^31 - 1\<close>, and \<^verbatim>\<open>random(false)\<close>, its product with
  \<open>scale\<close> rounded to a double, is exactly 1: the interval reached is closed at 1.
\<close>

theorem random_reaches_one:
  "WELL_new (\<lambda>_. 0) (Some 0) [seed24, zeros] = (Inr gen1, [seed24, zeros, seed24])
   \<and> fst (rand False ([seed24, zeros, seed24], gen1)) = Num (2 ^ 31 - 1)
   \<and> fst (random False ([seed24, zeros, seed24], gen1)) = Some 1"
  apply (intro conjI)
    apply (simp add: WELL_new_def set_state_def slice0_def blank_def gen1_def seed24_len)
   apply (simp add: rand_seed24)
  apply (simp add: random_alt rand_seed24 double_round_top)
  done

section \<open>Small draws from the bit cache\<close>

text \<open>
  C5. For \<open>1 \<le> bits \<le> 31\<close> and a cache offset that is not negative: if the offset plus
  \<open>bits\<close> is at most 32, \<^verbatim>\<open>randBits(bits)\<close> advances the offset by \<open>bits\<close>, leaves
  store and pointer alone (no transition step) and returns the cached word shifted right
  logically by the old offset, masked with \<open>(1 << bits) - 1\<close>; otherwise it stores the
  result of \<^verbatim>\<open>rand(true)\<close> as the cached word, sets the offset to \<open>bits\<close> and returns
  that word masked. Either way the result is a Number in \<open>[0, 2^bits - 1]\<close>. The code
  shifts arithmetically; under the mask the two shifts agree.
\<close>

theorem randBits_contract:
  assumes "1 \<le> bits" and "bits \<le> 31" and "0 \<le> next_bit g"
  shows "(next_bit g + bits \<le> 32 \<longrightarrow>
            randBits bits (h, g)
              = (int32 (drop_bit (nat (next_bit g)) (ToInt32 (bit_state g))
                          AND (push_bit (nat bits) 1 - 1)),
                 h, g\<lparr>next_bit := next_bit g + bits\<rparr>))
       \<and> (\<not> next_bit g + bits \<le> 32 \<longrightarrow>
            randBits bits (h, g)
              = (int32 (ToInt32 (fst (rand True (h, g))) AND (push_bit (nat bits) 1 - 1)),
                 fst (snd (rand True (h, g))),
                 (snd (snd (rand True (h, g))))
                   \<lparr>bit_state := fst (rand True (h, g)), next_bit := bits\<rparr>))
       \<and> (\<exists>k. fst (randBits bits (h, g)) = Num k \<and> 0 \<le> k \<and> k \<le> 2 ^ nat bits - 1)"
proof -
  have m: "ToInt32 (Num (sint (shl 1 bits) - 1)) = mask (nat bits)"
    by (rule mask_num [OF assms(1,2)])
  then have m': "shl 1 bits - 1 = mask (nat bits)"
    by simp
  have p: "(push_bit (nat bits) 1 - 1 :: 32 word) = mask (nat bits)"
    by (simp add: mask_eq_exp_minus_1)
  have n: "nat bits < 32" using assms by simp
  have cached: "randBits bits (h, g)
              = (int32 (drop_bit (nat (next_bit g)) (ToInt32 (bit_state g)) AND mask (nat bits)),
                 h, g\<lparr>next_bit := next_bit g + bits\<rparr>)" if "next_bit g + bits \<le> 32"
    using that assms by (simp add: randBits_alt m' sar_and_mask add.commute)
  have refill: "randBits bits (h, g)
              = (int32 (ToInt32 (fst (rand True (h, g))) AND mask (nat bits)),
                 fst (snd (rand True (h, g))),
                 (snd (snd (rand True (h, g))))
                   \<lparr>bit_state := fst (rand True (h, g)), next_bit := bits\<rparr>)"
    if "\<not> next_bit g + bits \<le> 32"
    using that by (simp add: randBits_alt m' sar_0 add.commute)
  have "\<exists>x::32 word. fst (randBits bits (h, g)) = int32 (x AND mask (nat bits))"
    using cached refill by (cases "next_bit g + bits \<le> 32") auto
  then obtain x :: "32 word"
    where "fst (randBits bits (h, g)) = Num (sint (x AND mask (nat bits)))"
    by (auto simp add: int32_def)
  with and_mask_range [OF n, of x]
  have "\<exists>k. fst (randBits bits (h, g)) = Num k \<and> 0 \<le> k \<and> k \<le> 2 ^ nat bits - 1"
    by blast
  with cached refill show ?thesis unfolding p by blast
qed

theorem randBits_contract_witness:
  "(1::int) \<le> 7 \<and> (7::int) \<le> 31 \<and> 0 \<le> next_bit (snd reseeded)
   \<and> next_bit (snd reseeded) + 7 \<le> 32
   \<and> randBits 7 (fst reseeded, snd reseeded)
        = (int32 (drop_bit (nat (next_bit (snd reseeded))) (ToInt32 (bit_state (snd reseeded)))
                    AND (push_bit (nat 7) 1 - 1)),
           fst reseeded, (snd reseeded)\<lparr>next_bit := next_bit (snd reseeded) + 7\<rparr>)
   \<and> \<not> next_bit gen1 + 7 \<le> 32
   \<and> randBits 7 ([zeros, seed3, seed3], gen1)
        = (int32 (ToInt32 (fst (rand True ([zeros, seed3, seed3], gen1))) AND (push_bit (nat 7) 1 - 1)),
           fst (snd (rand True ([zeros, seed3, seed3], gen1))),
           (snd (snd (rand True ([zeros, seed3, seed3], gen1))))
             \<lparr>bit_state := fst (rand True ([zeros, seed3, seed3], gen1)), next_bit := 7\<rparr>)"
  using randBits_contract [of 7 "snd reseeded" "fst reseeded"]
    randBits_contract [of 7 gen1 "[zeros, seed3, seed3]"]
  by (simp add: reseeded_eq gen1_def)

section \<open>Integers in a range\<close>

text \<open>
  C7 (as stated, refuted). The claim is for all integers \<open>a \<le> b\<close>. \<open>2^53\<close> and
  \<open>2^53 + 2\<close> are doubles, so the code can be given them. In the state with vector
  \<open>seed24\<close> and pointer 0, where \<^verbatim>\<open>rand(false)\<close> returns \<open>2^31 - 1\<close>,
  \<^verbatim>\<open>randInt(2^53, 2^53 + 2)\<close> computes \<open>1 + b\<close> as \<open>2^53 + 4\<close> and the distance as 4, and
  returns \<open>2^53 + 4\<close>: this is not \<open>(r mod (1 + b - a)) + a = 2^53 + 1\<close>, and it is
  above \<open>b\<close>. \<^verbatim>\<open>randInt(2^53, 2^53)\<close> computes the distance 0 and returns NaN, not
  \<open>a\<close>.
\<close>

theorem randInt_beyond_safe_range:
  "double_round (2 ^ 53) = 2 ^ 53 \<and> double_round (2 ^ 53 + 2) = 2 ^ 53 + 2
   \<and> fst (rand False ([seed24, zeros, seed24], gen1)) = Num 2147483647
   \<and> fst (randInt (2 ^ 53) (2 ^ 53 + 2) ([seed24, zeros, seed24], gen1)) = Fin (2 ^ 53 + 4)
   \<and> fst (randInt (2 ^ 53) (2 ^ 53 + 2) ([seed24, zeros, seed24], gen1))
       \<noteq> Fin (of_int (2147483647 mod (1 + (2 ^ 53 + 2) - 2 ^ 53) + 2 ^ 53))
   \<and> (2 ^ 53 + 2 :: rat) < 2 ^ 53 + 4
   \<and> fst (randInt (2 ^ 53) (2 ^ 53) ([seed24, zeros, seed24], gen1)) = NaN"
proof -
  have d: "double_round (2 ^ 53) = 2 ^ 53" "double_round (2 ^ 53 + 2) = 2 ^ 53 + 2"
    by code_simp+
  have r: "fst (rand False ([seed24, zeros, seed24], gen1)) = Num 2147483647"
    by (rule rand_seed24)
  have a: "fst (randInt (2 ^ 53) (2 ^ 53 + 2) ([seed24, zeros, seed24], gen1)) = Fin (2 ^ 53 + 4)"
    unfolding randInt_alt fst_conv r Number_of.simps using randInt_2_53_2 by simp
  have b: "fst (randInt (2 ^ 53) (2 ^ 53) ([seed24, zeros, seed24], gen1)) = NaN"
    unfolding randInt_alt fst_conv r Number_of.simps using randInt_2_53_0 by simp
  show ?thesis
    unfolding a b using d r by simp
qed

text \<open>
  C7 (amended). For all integers \<open>a \<le> b\<close> in the range where every integer is a double,
  \<open>-2^53 < a\<close> and \<open>b < 2^53\<close>, \<^verbatim>\<open>randInt(a, b)\<close> is \<open>(r mod (1 + b - a)) + a\<close> for
  the value \<open>r\<close> that \<^verbatim>\<open>rand(false)\<close> returns in the same state, it lies in
  \<open>[a, b]\<close>, and it leaves the state that \<^verbatim>\<open>rand(false)\<close> leaves;
  \<^verbatim>\<open>randInt(5, 5)\<close> is 5 in every state.
\<close>

theorem randInt_range:
  assumes "a \<le> b" and "- (2 ^ 53) < a" and "b < 2 ^ 53"
  shows "(\<exists>r. fst (rand False hg) = Num r
            \<and> fst (randInt a b hg) = Fin (of_int (r mod (1 + b - a) + a))
            \<and> a \<le> r mod (1 + b - a) + a \<and> r mod (1 + b - a) + a \<le> b)
       \<and> snd (randInt a b hg) = snd (rand False hg)
       \<and> fst (randInt 5 5 hg) = Fin 5"
proof -
  obtain r where r: "fst (rand False hg) = Num r" "0 \<le> r" "r \<le> 2 ^ 31 - 1"
    using rand_False_range [of hg] by blast
  have gen: "fst (randInt a b hg) = Fin (of_int (r mod (1 + b - a) + a))
      \<and> a \<le> r mod (1 + b - a) + a \<and> r mod (1 + b - a) + a \<le> b"
    if ab: "a \<le> b" "- (2 ^ 53) < a" "b < 2 ^ 53" for a b :: int
  proof -
    let ?D = "1 + b - a"
    have d: "0 < ?D" using ab by simp
    have m: "0 \<le> r mod ?D" "r mod ?D < ?D" using d by simp_all
    have v: "a \<le> r mod ?D + a" "r mod ?D + a \<le> b" using m by simp_all
    have s1: "js_add (Fin 1) (Fin (of_int b)) = Fin (of_int (1 + b))"
      using js_add_int [of 1 b] ab by simp
    have "\<exists>D'. js_sub (Fin (of_int (1 + b))) (Fin (of_int a)) = Fin (of_int D')
             \<and> 0 < D' \<and> r mod D' = r mod ?D"
    proof (cases "?D \<le> 2 ^ 53")
      case True
      with d js_sub_int [of "1 + b" a] show ?thesis
        by (intro exI [of _ ?D]) (simp add: algebra_simps)
    next
      case False
      then have "2 ^ 53 \<le> ?D" "?D < 2 ^ 54" using ab by simp_all
      from double_round_int_big [OF this] obtain k
        where k: "double_round (of_int ?D) = of_int k" "2 ^ 53 \<le> k" "k \<le> 2 ^ 54"
        by blast
      have "(of_int k :: rat) < 2 ^ 1024" "- (2 ^ 1024) < (of_int k :: rat)"
        using k(2,3) by simp_all
      then have "fl (of_int ?D) = Fin (of_int k)"
        by (simp add: fl_def k(1) not_le del: of_int_add of_int_diff)
      then have "js_sub (Fin (of_int (1 + b))) (Fin (of_int a)) = Fin (of_int k)"
        by (simp add: js_sub_def)
      moreover have "r mod k = r" "r mod ?D = r"
        using r(2,3) k(2) False by simp_all
      moreover have "0 < k" using k(2) by simp
      ultimately show ?thesis by (intro exI [of _ k]) simp
    qed
    then obtain D' where D': "js_sub (Fin (of_int (1 + b))) (Fin (of_int a)) = Fin (of_int D')"
      "0 < D'" "r mod D' = r mod ?D" by blast
    have s3: "js_rem (Fin (of_int r)) (Fin (of_int D')) = Fin (of_int (r mod ?D))"
      using js_rem_int [OF r(2) D'(2)] D'(3) by simp
    have "\<bar>r mod ?D + a\<bar> \<le> 2 ^ 53"
      using v ab by linarith
    then have s4: "js_add (Fin (of_int (r mod ?D))) (Fin (of_int a)) = Fin (of_int (r mod ?D + a))"
      by (rule js_add_int)
    have "fst (randInt a b hg) = Fin (of_int (r mod ?D + a))"
      unfolding randInt_alt fst_conv r(1) Number_of.simps s1 D'(1) s3 s4 ..
    with v show ?thesis by simp
  qed
  from gen [OF assms] gen [of 5 5] r(1) show ?thesis
    by (simp add: randInt_alt)
qed

theorem randInt_range_witness:
  "(2::int) \<le> 12 \<and> - (2 ^ 53) < (2::int) \<and> (12::int) < 2 ^ 53
   \<and> fst (rand False ([zeros, seed3, seed3], gen1)) = Num 129
   \<and> fst (randInt 2 12 ([zeros, seed3, seed3], gen1)) = Fin 10
   \<and> snd (randInt 2 12 ([zeros, seed3, seed3], gen1)) = snd (rand False ([zeros, seed3, seed3], gen1))
   \<and> fst (randInt 5 5 ([zeros, seed3, seed3], gen1)) = Fin 5"
  using randInt_range [of 2 12 "([zeros, seed3, seed3], gen1)"]
  by (simp add: rand_False_seed3)

section \<open>Determinism\<close>

text \<open>
  Generators built by the constructor from arrays with the same contents give the same
  outputs for every sequence of calls, and so do generators given the same vector and
  pointer by \<^verbatim>\<open>set_state\<close> when their bit caches agree.
\<close>

lemma run_constructed:
  assumes "h ! a = h' ! a'"
    and "WELL_new rnd (Some a) h = (Inr g, h1)"
    and "WELL_new rnd' (Some a') h' = (Inr g', h1')"
  shows "fst (run cs (h1, g)) = fst (run cs (h1', g'))"
proof -
  have l: "length (h ! a) = 32"
  proof (rule ccontr)
    assume "length (h ! a) \<noteq> 32"
    then have "WELL_new rnd (Some a) h = (Inl TypeError, h)"
      by (simp add: WELL_new_def set_state_def)
    with assms(2) show False by simp
  qed
  then have l': "length (h' ! a') = 32" using assms(1) by simp
  from assms(2) have g: "g = \<lparr>p_state = length h, p_n = 0, next_bit = 32, bit_state = Undefined\<rparr>"
    and h1: "h1 = h @ [h ! a]"
    by (simp_all add: WELL_new_ok [OF l])
  from assms(3) have g': "g' = \<lparr>p_state = length h', p_n = 0, next_bit = 32, bit_state = Undefined\<rparr>"
    and h1': "h1' = h' @ [h' ! a']"
    by (simp_all add: WELL_new_ok [OF l'])
  have "valid (h1, g)" "valid (h1', g')" "view (h1, g) = view (h1', g')"
    using assms(1) by (simp_all add: valid_def view_def g g' h1 h1')
  from run_view [OF this, of cs] show ?thesis by simp
qed

lemma run_imported:
  assumes "h ! a = h' ! a'"
    and "next_bit g = next_bit g'" and "bit_state g = bit_state g'"
    and "set_state a sp (h, g) = (None, h1, g1)"
    and "set_state a' sp (h', g') = (None, h1', g1')"
  shows "fst (run cs (h1, g1)) = fst (run cs (h1', g1'))"
proof -
  have l: "length (h ! a) = 32"
  proof (rule ccontr)
    assume "length (h ! a) \<noteq> 32"
    then have "set_state a sp (h, g) = (Some TypeError, h, g)"
      by (simp add: set_state_def)
    with assms(4) show False by simp
  qed
  then have l': "length (h' ! a') = 32" using assms(1) by simp
  from assms(4) have g: "g1 = g\<lparr>p_n := (case sp of None \<Rightarrow> 0 | Some p \<Rightarrow> p), p_state := length h\<rparr>"
    and h1: "h1 = h @ [h ! a]"
    by (simp_all add: set_state_ok [OF l])
  from assms(5) have g': "g1' = g'\<lparr>p_n := (case sp of None \<Rightarrow> 0 | Some p \<Rightarrow> p), p_state := length h'\<rparr>"
    and h1': "h1' = h' @ [h' ! a']"
    by (simp_all add: set_state_ok [OF l'])
  have "valid (h1, g1)" "valid (h1', g1')" "view (h1, g1) = view (h1', g1')"
    using assms(1,2,3) by (simp_all add: valid_def view_def g g' h1 h1')
  from run_view [OF this, of cs] show ?thesis by simp
qed

text \<open>
  C8 (the code at the failing input). Two generators are given the same vector \<open>zeros\<close>
  and the same pointer 0 by \<^verbatim>\<open>set_state\<close>; one was built from \<open>zeros\<close>, the other
  from \<open>seed3\<close> and has served one \<^verbatim>\<open>randBits(7)\<close> before. Their state vectors and
  pointers agree after the import, and the same call \<^verbatim>\<open>randBits(7)\<close> returns 0 on the
  first and 1 on the second.
\<close>

theorem same_import_different_output:
  "WELL_new (\<lambda>_. 0) (Some 0) [zeros, seed3] = (Inr gen1, [zeros, seed3, zeros])
   \<and> WELL_new (\<lambda>_. 0) (Some 1) [zeros, seed3] = (Inr gen1, [zeros, seed3, seed3])
   \<and> fst (set_state 0 (Some 0) ([zeros, seed3, zeros], gen1)) = None
   \<and> fst (set_state 0 (Some 0) used) = None
   \<and> fst pristine ! p_state (snd pristine) = zeros
   \<and> fst reseeded ! p_state (snd reseeded) = zeros
   \<and> p_n (snd pristine) = 0
   \<and> p_n (snd reseeded) = 0
   \<and> fst (run [RandBits 7] pristine) = [OutVal (Num 0)]
   \<and> fst (run [RandBits 7] reseeded) = [OutVal (Num 1)]"
  apply (intro conjI)
           apply (simp add: WELL_new_ok gen1_def zeros_len)
          apply (simp add: WELL_new_ok gen1_def seed3_len)
         apply (simp add: set_state_ok zeros_len)
        apply (simp add: used_eq set_state_ok zeros_len)
       apply (simp add: pristine_eq)
      apply (simp add: reseeded_eq)
     apply (simp add: pristine_eq)
    apply (simp add: reseeded_eq)
   apply (simp add: pristine_eq randBits_alt rand_zeros sar_def shl_def int32_def split: prod.splits)
  apply (simp add: reseeded_eq randBits_alt sar_def shl_def int32_def split: prod.splits)
  done

section \<open>Copies in, copies out\<close>

text \<open>
  C9. \<^verbatim>\<open>get_state\<close> returns a fresh array \<open>a\<close> with the contents of the state
  vector, and a successful \<^verbatim>\<open>set_state\<close> makes the generator hold a fresh array with
  the contents of the caller's array \<open>c\<close>. Whatever the caller then stores in \<open>a\<close>, or in
  \<open>c\<close>, (the store updated there with any \<open>xs\<close>), the generator's state vector, pointer
  and bit cache are as without the mutation, and so is the output of every sequence
  \<open>cs\<close> of calls.
\<close>

theorem copy_isolation:
  assumes "p_state g < length h" and "c < length h" and "length (h ! c) = 32"
    and "get_state (h, g) = (a, h1)"
    and "set_state c sp (h, g) = (e, h2, g2)"
  shows "(a \<noteq> p_state g \<and> h1 ! a = h ! p_state g
          \<and> view (h1[a := xs], g) = view (h, g)
          \<and> fst (run cs (h1[a := xs], g)) = fst (run cs (h, g)))
       \<and> (e = None \<and> p_state g2 \<noteq> c \<and> h2 ! p_state g2 = h ! c
          \<and> view (h2[c := xs], g2) = view (h2, g2)
          \<and> fst (run cs (h2[c := xs], g2)) = fst (run cs (h2, g2)))"
proof -
  from assms(4) have a: "a = length h" and h1: "h1 = h @ [h ! p_state g]"
    by (simp_all add: get_state_eq)
  from assms(5) have e: "e = None" and h2: "h2 = h @ [h ! c]"
    and g2: "g2 = g\<lparr>p_n := (case sp of None \<Rightarrow> 0 | Some p \<Rightarrow> p), p_state := length h\<rparr>"
    by (simp_all add: set_state_ok [OF assms(3)])
  have v1: "view (h1[a := xs], g) = view (h, g)"
    using assms(1) by (simp add: view_def a h1 nth_append)
  have "valid (h1[a := xs], g)" "valid (h, g)"
    using assms(1) by (simp_all add: valid_def h1)
  from run_view [OF this v1, of cs]
  have r1: "fst (run cs (h1[a := xs], g)) = fst (run cs (h, g))" by simp
  have v2: "view (h2[c := xs], g2) = view (h2, g2)"
    using assms(2) by (simp add: view_def h2 g2)
  have "valid (h2[c := xs], g2)" "valid (h2, g2)"
    by (simp_all add: valid_def h2 g2)
  from run_view [OF this v2, of cs]
  have r2: "fst (run cs (h2[c := xs], g2)) = fst (run cs (h2, g2))" by simp
  have "a \<noteq> p_state g" "h1 ! a = h ! p_state g"
    using assms(1) by (simp_all add: a h1)
  moreover have "p_state g2 \<noteq> c" "h2 ! p_state g2 = h ! c"
    using assms(2) by (simp_all add: h2 g2)
  ultimately show ?thesis using v1 r1 v2 r2 e by simp
qed

theorem copy_isolation_witness:
  "p_state gen1 < length [zeros, seed3, seed3] \<and> 0 < length [zeros, seed3, seed3]
   \<and> length ([zeros, seed3, seed3] ! 0) = 32
   \<and> get_state ([zeros, seed3, seed3], gen1) = (3, [zeros, seed3, seed3, seed3])
   \<and> set_state 0 (Some 0) ([zeros, seed3, seed3], gen1)
        = (None, [zeros, seed3, seed3, zeros], gen1\<lparr>p_state := 3\<rparr>)
   \<and> view ([zeros, seed3, seed3, seed3][3 := [Num 7]], gen1) = view ([zeros, seed3, seed3], gen1)
   \<and> fst (run [RandBits 7, Rand False] ([zeros, seed3, seed3, seed3][3 := [Num 7]], gen1))
        = fst (run [RandBits 7, Rand False] ([zeros, seed3, seed3], gen1))
   \<and> view ([zeros, seed3, seed3, zeros][0 := [Num 7]], gen1\<lparr>p_state := 3\<rparr>)
        = view ([zeros, seed3, seed3, zeros], gen1\<lparr>p_state := 3\<rparr>)
   \<and> fst (run [RandBits 7, Rand False] ([zeros, seed3, seed3, zeros][0 := [Num 7]], gen1\<lparr>p_state := 3\<rparr>))
        = fst (run [RandBits 7, Rand False] ([zeros, seed3, seed3, zeros], gen1\<lparr>p_state := 3\<rparr>))"
proof -
  have 1: "p_state gen1 < length [zeros, seed3, seed3]" by (simp add: gen1_def)
  have 2: "0 < length [zeros, seed3, seed3]" by simp
  have 3: "length ([zeros, seed3, seed3] ! 0) = 32" by (simp add: zeros_len)
  have 4: "get_state ([zeros, seed3, seed3], gen1) = (3, [zeros, seed3, seed3, seed3])"
    by (simp add: get_state_eq gen1_def)
  have 5: "set_state 0 (Some 0) ([zeros, seed3, seed3], gen1)
        = (None, [zeros, seed3, seed3, zeros], gen1\<lparr>p_state := 3\<rparr>)"
    by (simp add: set_state_ok zeros_len gen1_def)
  from copy_isolation [OF 1 2 3 4 5, of "[Num 7]" "[RandBits 7, Rand False]"] 1 2 3 4 5
  show ?thesis by simp
qed

section \<open>The shape of the state is kept\<close>

text \<open>
  C10. When the state vector has exactly 32 entries and the pointer lies in \<open>[0, 32)\<close>,
  the same holds after each of \<^verbatim>\<open>rand\<close>, \<^verbatim>\<open>random\<close>, \<^verbatim>\<open>randInt\<close> and
  \<^verbatim>\<open>randBits\<close>, with any arguments; the vector after \<^verbatim>\<open>rand\<close> is the old one with
  two of its slots overwritten, the one at the old pointer and the one at the new pointer.
\<close>

theorem draws_keep_inv32:
  assumes "inv32 hg"
  shows "inv32 (snd (rand incNeg hg)) \<and> inv32 (snd (random incNeg hg))
       \<and> inv32 (snd (randInt a b hg)) \<and> inv32 (snd (randBits bits hg))
       \<and> (\<exists>x y. fst (snd (rand incNeg hg)) ! p_state (snd hg)
              = (fst hg ! p_state (snd hg))
                  [nat (p_n (snd hg)) := x, nat ((p_n (snd hg) + 31) mod 32) := y])"
proof -
  have r: "inv32 (snd (rand c hg))" for c
    using assms rand_arr_length [of "fst hg" "snd hg" c] by simp
  have "inv32 (snd (randBits bits hg))"
  proof (cases "bits + next_bit (snd hg) \<le> 32")
    case True
    then show ?thesis using assms by (cases hg) (simp add: randBits_alt inv32_def)
  next
    case False
    with r [of True] show ?thesis
      by (simp add: randBits_alt inv32_def case_prod_beta)
  qed
  moreover have "\<exists>x y. fst (snd (rand incNeg hg)) ! p_state (snd hg)
              = (fst hg ! p_state (snd hg))
                  [nat (p_n (snd hg)) := x, nat ((p_n (snd hg) + 31) mod 32) := y]"
    using assms rand_writes [of "fst hg" "snd hg" incNeg] by simp
  ultimately show ?thesis using r by (simp add: random_alt randInt_alt)
qed

theorem draws_keep_inv32_witness:
  "inv32 ([zeros, seed3, seed3], gen1)
   \<and> inv32 (snd (rand False ([zeros, seed3, seed3], gen1)))
   \<and> inv32 (snd (random True ([zeros, seed3, seed3], gen1)))
   \<and> inv32 (snd (randInt 2 12 ([zeros, seed3, seed3], gen1)))
   \<and> inv32 (snd (randBits 7 ([zeros, seed3, seed3], gen1)))"
  using draws_keep_inv32 [of "([zeros, seed3, seed3], gen1)" False 2 12 7]
    draws_keep_inv32 [of "([zeros, seed3, seed3], gen1)" True 2 12 7]
  by (simp add: inv32_gen1)

end
